theory Spec2Isabelle
  imports Complex_Main
begin

section \<open>The clip sampler of \<open>datasets/image_datasets.py\<close>\<close>

text \<open>
  A shallow embedding of the class \<open>ActionSpotDataset\<close>: the constructor's parameter
  checks and event index, the two sampling strategies, the construction of the label
  array and the retry loop of \<open>__getitem__\<close>.  Python integers are \<open>int\<close>, the entries
  of the \<open>np.int64\<close> label array are integers kept inside the 64-bit signed range with
  the wrap-around of \<open>sum\<close> written out, exceptions are values of \<open>py_error\<close>, and the
  module-level random generator and the frame reader are explicit state.
\<close>

subsection \<open>Exceptions\<close>

datatype py_error =
    AssertionError | KeyError | IndexError | ValueError
  | OverflowError | ZeroDivisionError | AttributeError | ConfigurationError

text \<open>
  \<open>KeyError\<close> and \<open>IndexError\<close> are the two built-in subclasses of \<open>LookupError\<close>.
  \<open>ConfigurationError\<close> is the typed error that the specification names; no statement
  of the source raises it.
\<close>

fun is_LookupError :: "py_error \<Rightarrow> bool" where
  "is_LookupError KeyError = True"
| "is_LookupError IndexError = True"
| "is_LookupError _ = False"

subsection \<open>Annotations and the sampler object\<close>

record event =
  ev_frame :: int
  ev_label :: string

record annotation =
  video :: string
  num_frames :: int
  events :: "event list"

text \<open>
  The attributes of \<open>self\<close> that the sampler reads after construction.  \<open>flat_labels\<close>
  is \<open>None\<close> when the attribute was never assigned.
\<close>

record dataset =
  classes_dict :: "string \<rightharpoonup> int"
  clip_labels :: "annotation list"
  is_eval :: bool
  dilate_len :: int
  event_sample_rate :: real
  clip_len :: int
  frame_sample_stride :: int
  dataset_len :: int
  n_pad_frames :: int
  flat_labels :: "(nat \<times> int) list option"

subsection \<open>The random module\<close>

text \<open>
  The generator is a tape of raw draws and a read position; every library call used by
  the sampler reads one entry.  \<open>random.random()\<close> is a multiple of \<open>2^-53\<close> in
  \<open>[0,1)\<close>, \<open>random.randint(a, b)\<close> lies in \<open>[a, b]\<close> and raises \<open>ValueError\<close> on an
  empty range, \<open>random.choices(xs)[0]\<close> is \<open>xs[floor(random() * len(xs))]\<close>.
\<close>

record rng =
  tape :: "nat \<Rightarrow> nat"
  pos :: nat

definition next_raw :: "rng \<Rightarrow> nat \<times> rng" where
  "next_raw g = (tape g (pos g), g\<lparr>pos := Suc (pos g)\<rparr>)"

definition random_random :: "rng \<Rightarrow> real \<times> rng" where
  "random_random g =
     (case next_raw g of (k, g') \<Rightarrow> (real (k mod 2 ^ 53) / 2 ^ 53, g'))"

definition randint :: "int \<Rightarrow> int \<Rightarrow> rng \<Rightarrow> py_error + (int \<times> rng)" where
  "randint a b g =
     (if b < a then Inl ValueError
      else case next_raw g of (k, g') \<Rightarrow> Inr (a + int (k mod nat (b - a + 1)), g'))"

definition choices :: "'a list \<Rightarrow> rng \<Rightarrow> py_error + ('a \<times> rng)" where
  "choices population g =
     (case next_raw g of (k, g') \<Rightarrow>
        if population = [] then Inl IndexError
        else Inr (population ! ((k mod 2 ^ 53) * length population div 2 ^ 53), g'))"

text \<open>
  The weighted form: \<open>bisect\<close> over the cumulative weights, with the upper limit
  \<open>n - 1\<close>.  On the non-decreasing cumulative weights of non-negative frame counts the
  binary search of the library returns the index found by this scan.
\<close>

fun bisect :: "real list \<Rightarrow> real \<Rightarrow> nat" where
  "bisect [] x = 0"
| "bisect [c] x = 0"
| "bisect (c # c' # cs) x = (if x < c then 0 else Suc (bisect (c' # cs) x))"

fun accumulate :: "real \<Rightarrow> real list \<Rightarrow> real list" where
  "accumulate acc [] = []"
| "accumulate acc (w # ws) = (acc + w) # accumulate (acc + w) ws"

text \<open>
  \<open>uniform_sample_weight\<close> is \<open>num_frames / sum(num_frames)\<close>, taken here in exact
  arithmetic.  A zero sum makes every weight \<open>nan\<close> or infinite, which
  \<open>random.choices\<close> rejects with \<open>ValueError\<close>; an empty population fails with
  \<open>IndexError\<close> at \<open>cum_weights[-1]\<close>.
\<close>

definition uniform_sample_weight :: "annotation list \<Rightarrow> real list" where
  "uniform_sample_weight cls =
     map (\<lambda>c. real_of_int (num_frames c) / real_of_int (sum_list (map num_frames cls))) cls"

definition choices_weighted :: "annotation list \<Rightarrow> rng \<Rightarrow> py_error + (annotation \<times> rng)" where
  "choices_weighted population g =
     (if population = [] then Inl IndexError
      else if sum_list (map num_frames population) = 0 then Inl ValueError
      else
        let cum_weights = accumulate 0 (uniform_sample_weight population);
            total = last cum_weights
        in if total \<le> 0 then Inl ValueError
           else case random_random g of (u, g') \<Rightarrow>
             Inr (population ! bisect cum_weights (u * total), g'))"

subsection \<open>Construction\<close>

text \<open>
  The constructor's arguments that reach the sampler; \<open>cfg_clip_labels\<close> is what
  \<open>load_json(label_file)\<close> returned.  The four checks are Python \<open>assert\<close> statements,
  made in this order.
\<close>

record config =
  cfg_classes :: "string \<rightharpoonup> int"
  cfg_clip_labels :: "annotation list"
  cfg_clip_len :: int
  cfg_dataset_len :: int
  cfg_is_eval :: bool
  cfg_frame_sample_stride :: int
  cfg_dilate_len :: int
  cfg_n_pad_frames :: int
  cfg_event_sample_rate :: real

text \<open>The nested loop that fills \<open>flat_labels\<close>: videos in order, events in order.\<close>

definition video_flat_labels :: "nat \<Rightarrow> annotation \<Rightarrow> (nat \<times> int) list" where
  "video_flat_labels i x =
     map (\<lambda>e. (i, ev_frame e)) (filter (\<lambda>e. ev_frame e < num_frames x) (events x))"

definition build_flat_labels :: "annotation list \<Rightarrow> (nat \<times> int) list" where
  "build_flat_labels cls =
     concat (map (\<lambda>(i, x). video_flat_labels i x) (enumerate 0 cls))"

definition init :: "config \<Rightarrow> py_error + dataset" where
  "init c =
     (if \<not> (cfg_clip_len c > 0) then Inl AssertionError
      else if \<not> (cfg_frame_sample_stride c > 0) then Inl AssertionError
      else if \<not> (cfg_dataset_len c > 0) then Inl AssertionError
      else if \<not> (cfg_n_pad_frames c \<ge> 0) then Inl AssertionError
      else Inr \<lparr> classes_dict = cfg_classes c,
                 clip_labels = cfg_clip_labels c,
                 is_eval = cfg_is_eval c,
                 dilate_len = cfg_dilate_len c,
                 event_sample_rate = cfg_event_sample_rate c,
                 clip_len = cfg_clip_len c,
                 frame_sample_stride = cfg_frame_sample_stride c,
                 dataset_len = cfg_dataset_len c,
                 n_pad_frames = cfg_n_pad_frames c,
                 flat_labels =
                   (if cfg_event_sample_rate c > 0
                    then Some (build_flat_labels (cfg_clip_labels c)) else None) \<rparr>)"

subsection \<open>Sampling a clip and a start frame\<close>

definition sample_clip :: "dataset \<Rightarrow> rng \<Rightarrow> py_error + ((annotation \<times> int) \<times> rng)" where
  "sample_clip self g =
     (case choices_weighted (clip_labels self) g of
        Inl e \<Rightarrow> Inl e
      | Inr (clip_label, g1) \<Rightarrow>
          (let clip_frames = num_frames clip_label in
           (case randint 0
                   (max 0 (clip_frames - 1
                           + (2 * n_pad_frames self - clip_len self) * frame_sample_stride self))
                   g1 of
              Inl e \<Rightarrow> Inl e
            | Inr (r, g2) \<Rightarrow>
                Inr ((clip_label, - n_pad_frames self * frame_sample_stride self + r), g2))))"

definition lower_bound :: "dataset \<Rightarrow> int \<Rightarrow> int" where
  "lower_bound self frame_idx =
     max (- n_pad_frames self * frame_sample_stride self)
         (frame_idx - clip_len self * frame_sample_stride self + 1)"

definition upper_bound :: "dataset \<Rightarrow> int \<Rightarrow> int \<Rightarrow> int" where
  "upper_bound self video_len frame_idx =
     min (video_len - 1 + (n_pad_frames self - clip_len self) * frame_sample_stride self)
         frame_idx"

text \<open>
  The start frame as \<open>sample_event\<close> computes it, before its two assertions:
  \<open>randint(lower_bound, upper_bound) if upper_bound > lower_bound else lower_bound\<close>.
\<close>

definition event_start_frame ::
  "dataset \<Rightarrow> int \<Rightarrow> int \<Rightarrow> rng \<Rightarrow> py_error + (int \<times> rng)" where
  "event_start_frame self video_len frame_idx g =
     (if upper_bound self video_len frame_idx > lower_bound self frame_idx
      then randint (lower_bound self frame_idx) (upper_bound self video_len frame_idx) g
      else Inr (lower_bound self frame_idx, g))"

definition sample_event :: "dataset \<Rightarrow> rng \<Rightarrow> py_error + ((annotation \<times> int) \<times> rng)" where
  "sample_event self g =
     (case flat_labels self of
        None \<Rightarrow> Inl AttributeError
      | Some fl \<Rightarrow>
         (case choices fl g of
            Inl e \<Rightarrow> Inl e
          | Inr ((video_idx, frame_idx), g1) \<Rightarrow>
              if \<not> (video_idx < length (clip_labels self)) then Inl IndexError
              else
                (let clip_label = clip_labels self ! video_idx;
                     video_len = num_frames clip_label
                 in (case event_start_frame self video_len frame_idx g1 of
                       Inl e \<Rightarrow> Inl e
                     | Inr (start_frame, g2) \<Rightarrow>
                         if \<not> (start_frame \<le> frame_idx) then Inl AssertionError
                         else if \<not> (start_frame + clip_len self > frame_idx)
                           then Inl AssertionError
                         else Inr ((clip_label, start_frame), g2)))))"

text \<open>
  \<open>and\<close> short-circuits: \<open>random.random()\<close> is drawn only when the rate is positive.
\<close>

definition get_sample :: "dataset \<Rightarrow> rng \<Rightarrow> py_error + ((annotation \<times> int) \<times> rng)" where
  "get_sample self g =
     (if event_sample_rate self > 0
      then (case random_random g of (u, g') \<Rightarrow>
              if u > event_sample_rate self then sample_event self g'
              else sample_clip self g')
      else sample_clip self g)"

subsection \<open>The label array\<close>

text \<open>
  \<open>np.zeros(n, np.int64)\<close> refuses a negative length.  An item assignment with an
  integer index counts a negative index from the end, refuses an index outside the
  array and refuses a Python integer that does not fit 64 signed bits.
\<close>

definition np_zeros :: "int \<Rightarrow> py_error + int list" where
  "np_zeros n = (if n < 0 then Inl ValueError else Inr (replicate (nat n) 0))"

definition np_setitem :: "int list \<Rightarrow> int \<Rightarrow> int \<Rightarrow> py_error + int list" where
  "np_setitem labels i v =
     (let n = int (length labels); j = (if i < 0 then n + i else i)
      in if \<not> (0 \<le> j \<and> j < n) then Inl IndexError
         else if \<not> (- (2 ^ 63) \<le> v \<and> v < 2 ^ 63) then Inl OverflowError
         else Inr (labels[nat j := v]))"

text \<open>The inner loop \<open>for i in range(a, b): labels[i] = label\<close>, over the indices given.\<close>

fun write_range :: "int list \<Rightarrow> int list \<Rightarrow> int \<Rightarrow> py_error + int list" where
  "write_range labels [] v = Inr labels"
| "write_range labels (i # rest) v =
     (case np_setitem labels i v of
        Inl e \<Rightarrow> Inl e
      | Inr labels' \<Rightarrow> write_range labels' rest v)"

definition label_index :: "dataset \<Rightarrow> int \<Rightarrow> event \<Rightarrow> int" where
  "label_index self start_frame ev =
     (ev_frame ev - start_frame) div frame_sample_stride self"

text \<open>One pass of the loop over the events of the chosen video.\<close>

definition label_event :: "dataset \<Rightarrow> int \<Rightarrow> int list \<Rightarrow> event \<Rightarrow> py_error + int list" where
  "label_event self start_frame labels ev =
     (if frame_sample_stride self = 0 then Inl ZeroDivisionError
      else
        (let li = label_index self start_frame ev in
         if li \<ge> - dilate_len self \<and> li < clip_len self + dilate_len self
         then (case classes_dict self (ev_label ev) of
                 None \<Rightarrow> Inl KeyError
               | Some lab \<Rightarrow>
                   write_range labels
                     [max 0 (li - dilate_len self)
                        .. min (clip_len self) (li + dilate_len self + 1) - 1]
                     lab)
         else Inr labels))"

fun label_events :: "dataset \<Rightarrow> int \<Rightarrow> int list \<Rightarrow> event list \<Rightarrow> py_error + int list" where
  "label_events self start_frame labels [] = Inr labels"
| "label_events self start_frame labels (ev # rest) =
     (case label_event self start_frame labels ev of
        Inl e \<Rightarrow> Inl e
      | Inr labels' \<Rightarrow> label_events self start_frame labels' rest)"

definition make_labels :: "dataset \<Rightarrow> annotation \<Rightarrow> int \<Rightarrow> py_error + int list" where
  "make_labels self clip_label start_frame =
     (case np_zeros (clip_len self) of
        Inl e \<Rightarrow> Inl e
      | Inr labels \<Rightarrow> label_events self start_frame labels (events clip_label))"

text \<open>
  \<open>int(labels.sum() > 0)\<close>: the sum of an \<open>int64\<close> array is an \<open>int64\<close> and wraps
  around silently.
\<close>

definition wrap64 :: "int \<Rightarrow> int" where
  "wrap64 x = (x + 2 ^ 63) mod 2 ^ 64 - 2 ^ 63"

definition contains_event_of :: "int list \<Rightarrow> int" where
  "contains_event_of labels = (if wrap64 (sum_list labels) > 0 then 1 else 0)"

subsection \<open>Building an example\<close>

text \<open>
  The frame reader is a collaborator outside this file: a function from the request and
  the reader's own state to the frames, or \<open>None\<close>, and the reader's next state.  The
  state of a run holds the random generator, the reader's state and a count of the calls
  of \<open>load_frames\<close> made so far.
\<close>

record load_request =
  clip_name :: string
  start_frame :: int
  end_frame :: int
  pad_end_frame :: bool
  req_frame_sample_stride :: int
  random_sample :: bool

record 'r world =
  rand :: rng
  reader :: 'r
  loads :: nat

record 'f example =
  ex_frame :: "'f option"
  ex_label :: "int list"
  contains_event :: int

type_synonym ('f, 'r) frame_reader = "load_request \<Rightarrow> 'r \<Rightarrow> 'f option \<times> 'r"

definition get_example ::
  "dataset \<Rightarrow> ('f, 'r) frame_reader \<Rightarrow> 'r world \<Rightarrow> py_error + ('f example \<times> 'r world)" where
  "get_example self load_frames w =
     (case get_sample self (rand w) of
        Inl e \<Rightarrow> Inl e
      | Inr ((clip_label, start), g') \<Rightarrow>
          (case make_labels self clip_label start of
             Inl e \<Rightarrow> Inl e
           | Inr labels \<Rightarrow>
               (case load_frames
                       \<lparr> clip_name = video clip_label,
                         start_frame = start,
                         end_frame = start + clip_len self * frame_sample_stride self,
                         pad_end_frame = True,
                         req_frame_sample_stride = frame_sample_stride self,
                         random_sample = (\<not> is_eval self) \<rparr>
                       (reader w) of
                  (frames, r') \<Rightarrow>
                    Inr (\<lparr> ex_frame = frames, ex_label = labels,
                           contains_event = contains_event_of labels \<rparr>,
                         \<lparr> rand = g', reader = r', loads = Suc (loads w) \<rparr>))))"

text \<open>
  \<open>__getitem__\<close>: the loop \<open>while example["frame"] is None\<close> has no bound, so its
  model is a partial function and \<open>None\<close> stands for a run that never returns.
\<close>

partial_function (option) retry_loop ::
  "dataset \<Rightarrow> ('f, 'r) frame_reader \<Rightarrow> 'f example \<Rightarrow> 'r world
     \<Rightarrow> (py_error + ('f example \<times> 'r world)) option" where
  "retry_loop self load_frames example w =
     (if ex_frame example = None
      then (case get_example self load_frames w of
              Inl e \<Rightarrow> Some (Inl e)
            | Inr (example', w') \<Rightarrow> retry_loop self load_frames example' w')
      else Some (Inr (example, w)))"

definition getitem ::
  "dataset \<Rightarrow> ('f, 'r) frame_reader \<Rightarrow> int \<Rightarrow> 'r world
     \<Rightarrow> (py_error + ('f example \<times> 'r world)) option" where
  "getitem self load_frames unused w =
     (case get_example self load_frames w of
        Inl e \<Rightarrow> Some (Inl e)
      | Inr (example, w') \<Rightarrow> retry_loop self load_frames example w')"

subsection \<open>Notions used in the statements\<close>

text \<open>The values that an \<open>int64\<close> entry can hold.\<close>

definition fits_int64 :: "int \<Rightarrow> bool" where
  "fits_int64 v \<longleftrightarrow> - (2 ^ 63) \<le> v \<and> v < 2 ^ 63"

text \<open>
  The guard of the label loop, and the positions that an event passing it writes:
  \<open>range(max(0, li - dilate_len), min(clip_len, li + dilate_len + 1))\<close>.
\<close>

definition in_window :: "dataset \<Rightarrow> int \<Rightarrow> event \<Rightarrow> bool" where
  "in_window self start ev \<longleftrightarrow>
     - dilate_len self \<le> label_index self start ev
     \<and> label_index self start ev < clip_len self + dilate_len self"

definition covers :: "dataset \<Rightarrow> int \<Rightarrow> event \<Rightarrow> int \<Rightarrow> bool" where
  "covers self start ev i \<longleftrightarrow>
     in_window self start ev
     \<and> max 0 (label_index self start ev - dilate_len self) \<le> i
     \<and> i < min (clip_len self) (label_index self start ev + dilate_len self + 1)"

text \<open>The condition under which \<open>get_sample\<close> takes its first branch.\<close>

definition event_centered :: "dataset \<Rightarrow> rng \<Rightarrow> bool" where
  "event_centered self g \<longleftrightarrow>
     event_sample_rate self > 0 \<and> fst (random_random g) > event_sample_rate self"

text \<open>
  The event index as the specification words it: the events whose frame lies within
  \<open>[0, num_frames)\<close>.
\<close>

definition spec_flat_labels :: "annotation list \<Rightarrow> (nat \<times> int) list" where
  "spec_flat_labels cls =
     concat (map (\<lambda>(i, x).
        map (\<lambda>e. (i, ev_frame e))
          (filter (\<lambda>e. 0 \<le> ev_frame e \<and> ev_frame e < num_frames x) (events x)))
        (enumerate 0 cls))"

text \<open>
  \<open>failed_attempts self load_frames n w\<close> is the state reached from \<open>w\<close> after \<open>n\<close>
  runs of \<open>get_example\<close> that each returned an example without frames.
\<close>

fun failed_attempts ::
  "dataset \<Rightarrow> ('f, 'r) frame_reader \<Rightarrow> nat \<Rightarrow> 'r world \<Rightarrow> 'r world option" where
  "failed_attempts self load_frames 0 w = Some w"
| "failed_attempts self load_frames (Suc n) w =
     (case get_example self load_frames w of
        Inl e \<Rightarrow> None
      | Inr (example, w') \<Rightarrow>
          if ex_frame example = None then failed_attempts self load_frames n w' else None)"

subsection \<open>Concrete inputs\<close>

definition tape_of :: "nat list \<Rightarrow> rng" where
  "tape_of xs = \<lparr> tape = (\<lambda>n. if n < length xs then xs ! n else 0), pos = 0 \<rparr>"

text \<open>One video of 100 frames with one event, sampled with stride 2.\<close>

definition stride_config :: config where
  "stride_config =
     \<lparr> cfg_classes = [''goal'' \<mapsto> 1],
       cfg_clip_labels = [\<lparr> video = ''match'', num_frames = 100,
                            events = [\<lparr> ev_frame = 50, ev_label = ''goal'' \<rparr>] \<rparr>],
       cfg_clip_len = 4, cfg_dataset_len = 10, cfg_is_eval = True,
       cfg_frame_sample_stride = 2, cfg_dilate_len = 0, cfg_n_pad_frames = 0,
       cfg_event_sample_rate = 1 / 2 \<rparr>"

definition stride_dataset :: dataset where
  "stride_dataset =
     \<lparr> classes_dict = [''goal'' \<mapsto> 1],
       clip_labels = [\<lparr> video = ''match'', num_frames = 100,
                        events = [\<lparr> ev_frame = 50, ev_label = ''goal'' \<rparr>] \<rparr>],
       is_eval = True, dilate_len = 0, event_sample_rate = 1 / 2,
       clip_len = 4, frame_sample_stride = 2, dataset_len = 10, n_pad_frames = 0,
       flat_labels = Some [(0, 50)] \<rparr>"

text \<open>Two events close together, dilated by one position, event sampling disabled.\<close>

definition demo_dataset :: dataset where
  "demo_dataset =
     \<lparr> classes_dict = [''goal'' \<mapsto> 1, ''foul'' \<mapsto> 2],
       clip_labels = [\<lparr> video = ''match'', num_frames = 100,
                        events = [\<lparr> ev_frame = 50, ev_label = ''goal'' \<rparr>,
                                  \<lparr> ev_frame = 52, ev_label = ''foul'' \<rparr>] \<rparr>],
       is_eval = True, dilate_len = 1, event_sample_rate = - 1,
       clip_len = 4, frame_sample_stride = 2, dataset_len = 10, n_pad_frames = 0,
       flat_labels = None \<rparr>"

text \<open>An event whose label is not a key of the class map.\<close>

definition unknown_label_dataset :: dataset where
  "unknown_label_dataset =
     \<lparr> classes_dict = [''goal'' \<mapsto> 1],
       clip_labels = [\<lparr> video = ''match'', num_frames = 100,
                        events = [\<lparr> ev_frame = 90, ev_label = ''offside'' \<rparr>] \<rparr>],
       is_eval = True, dilate_len = 1, event_sample_rate = - 1,
       clip_len = 4, frame_sample_stride = 2, dataset_len = 10, n_pad_frames = 0,
       flat_labels = None \<rparr>"

text \<open>An annotation with a negative event frame, and a configuration with \<open>clip_len = 0\<close>.\<close>

definition negative_frame_config :: config where
  "negative_frame_config =
     \<lparr> cfg_classes = [''goal'' \<mapsto> 1],
       cfg_clip_labels = [\<lparr> video = ''match'', num_frames = 10,
                            events = [\<lparr> ev_frame = - 1, ev_label = ''goal'' \<rparr>] \<rparr>],
       cfg_clip_len = 4, cfg_dataset_len = 10, cfg_is_eval = True,
       cfg_frame_sample_stride = 1, cfg_dilate_len = 0, cfg_n_pad_frames = 0,
       cfg_event_sample_rate = 1 / 2 \<rparr>"

text \<open>What the constructor returns for \<open>negative_frame_config\<close>.\<close>

definition negative_frame_dataset :: dataset where
  "negative_frame_dataset =
     \<lparr> classes_dict = [''goal'' \<mapsto> 1],
       clip_labels = [\<lparr> video = ''match'', num_frames = 10,
                        events = [\<lparr> ev_frame = - 1, ev_label = ''goal'' \<rparr>] \<rparr>],
       is_eval = True, dilate_len = 0, event_sample_rate = 1 / 2,
       clip_len = 4, frame_sample_stride = 1, dataset_len = 10, n_pad_frames = 0,
       flat_labels = Some [(0, - 1)] \<rparr>"

definition zero_clip_len_config :: config where
  "zero_clip_len_config = stride_config \<lparr> cfg_clip_len := 0 \<rparr>"

text \<open>
  Two frame readers whose state counts their calls: one fails on its first two calls,
  the other never fails.
\<close>

definition flaky_reader :: "(string, nat) frame_reader" where
  "flaky_reader req n = (if n < 2 then None else Some (clip_name req), Suc n)"

definition steady_reader :: "(string, nat) frame_reader" where
  "steady_reader req n = (Some (clip_name req), Suc n)"

section \<open>Auxiliary facts\<close>

subsection \<open>The random module\<close>

lemma randint_in_range:
  assumes "a \<le> b"
  shows "\<exists>r g'. randint a b g = Inr (r, g') \<and> a \<le> r \<and> r \<le> b"
proof -
  obtain k g' where kg: "next_raw g = (k, g')" by (cases "next_raw g")
  have pos: "0 < nat (b - a + 1)" using assms by simp
  have "k mod nat (b - a + 1) < nat (b - a + 1)" using pos by simp
  then have "int (k mod nat (b - a + 1)) \<le> b - a" using assms by linarith
  then show ?thesis using assms kg by (simp add: randint_def)
qed

lemma choices_in_set:
  assumes "choices xs g = Inr (x, g')"
  shows "x \<in> set xs"
proof -
  obtain k g1 where kg: "next_raw g = (k, g1)" by (cases "next_raw g")
  from assms kg have ne: "xs \<noteq> []" by (auto simp: choices_def split: if_splits)
  have "(k mod 2 ^ 53) * length xs < 2 ^ 53 * length xs"
    using ne by simp
  then have "(k mod 2 ^ 53) * length xs div 2 ^ 53 < length xs"
    by (simp add: less_mult_imp_div_less mult.commute)
  then show ?thesis using assms kg ne by (auto simp: choices_def)
qed

lemma next_raw_pos: "next_raw g = (k, g') \<Longrightarrow> pos g' = Suc (pos g)"
  by (auto simp: next_raw_def)

lemma random_random_pos: "random_random g = (u, g') \<Longrightarrow> pos g' = Suc (pos g)"
  by (auto simp: random_random_def split: prod.splits dest: next_raw_pos)

lemma randint_pos: "randint a b g = Inr (r, g') \<Longrightarrow> pos g' = Suc (pos g)"
  by (auto simp: randint_def split: prod.splits if_splits dest: next_raw_pos)

lemma choices_pos: "choices xs g = Inr (x, g') \<Longrightarrow> pos g' = Suc (pos g)"
  by (auto simp: choices_def split: prod.splits if_splits dest: next_raw_pos)

lemma choices_weighted_pos: "choices_weighted xs g = Inr (x, g') \<Longrightarrow> pos g' = Suc (pos g)"
  by (auto simp: choices_weighted_def Let_def split: prod.splits if_splits dest: random_random_pos)

subsection \<open>Sampling\<close>

lemma lower_bound_le_frame:
  assumes "clip_len self > 0" "frame_sample_stride self > 0" "n_pad_frames self \<ge> 0" "0 \<le> f"
  shows "lower_bound self f \<le> f"
proof -
  have "0 < clip_len self * frame_sample_stride self" using assms by simp
  moreover have "0 \<le> n_pad_frames self * frame_sample_stride self" using assms by simp
  ultimately show ?thesis using assms(4) by (simp add: lower_bound_def)
qed

lemma sample_event_returns:
  assumes "sample_event self g = Inr ((c, s), g2)"
  shows "\<exists>fl vi f. flat_labels self = Some fl \<and> (vi, f) \<in> set fl
           \<and> vi < length (clip_labels self) \<and> c = clip_labels self ! vi
           \<and> s \<le> f \<and> f < s + clip_len self"
  using assms
  by (auto simp: sample_event_def Let_def split: option.splits sum.splits prod.splits if_splits
      dest!: choices_in_set)

lemma event_start_frame_pos:
  "event_start_frame self video_len f g = Inr (s, g') \<Longrightarrow> pos g \<le> pos g'"
  by (auto simp: event_start_frame_def split: if_splits dest: randint_pos)

lemma sample_clip_pos: "sample_clip self g = Inr (p, g') \<Longrightarrow> pos g < pos g'"
  by (auto simp: sample_clip_def Let_def split: sum.splits prod.splits
      dest!: choices_weighted_pos randint_pos)

lemma sample_event_pos: "sample_event self g = Inr (p, g') \<Longrightarrow> pos g < pos g'"
  by (auto simp: sample_event_def Let_def split: option.splits sum.splits prod.splits if_splits
      dest!: choices_pos event_start_frame_pos)

lemma get_sample_pos: "get_sample self g = Inr (p, g') \<Longrightarrow> pos g < pos g'"
  by (auto simp: get_sample_def split: prod.splits if_splits
      dest!: random_random_pos sample_clip_pos sample_event_pos)

lemma get_example_fresh:
  "get_example self load_frames w = Inr (example, w') \<Longrightarrow> pos (rand w) < pos (rand w')"
  by (auto simp: get_example_def split: sum.splits prod.splits dest!: get_sample_pos)

subsection \<open>The event index\<close>

lemma filter_video_flat_labels:
  "filter (\<lambda>p. fst p = i) (video_flat_labels j x) = (if i = j then video_flat_labels j x else [])"
  by (auto simp: video_flat_labels_def filter_map comp_def)

lemma map_snd_video_flat_labels:
  "map snd (video_flat_labels j x) =
     map ev_frame (filter (\<lambda>e. ev_frame e < num_frames x) (events x))"
  by (simp add: video_flat_labels_def comp_def)

lemma flat_labels_of_video_from:
  "map snd (filter (\<lambda>p. fst p = i)
       (concat (map (\<lambda>(j, x). video_flat_labels j x) (enumerate n cls)))) =
     (if n \<le> i \<and> i < n + length cls
      then map ev_frame (filter (\<lambda>e. ev_frame e < num_frames (cls ! (i - n)))
                           (events (cls ! (i - n))))
      else [])"
proof (induction cls arbitrary: n)
  case Nil
  then show ?case by auto
next
  case (Cons x cls)
  let ?rest = "concat (map (\<lambda>(j, x). video_flat_labels j x) (enumerate (Suc n) cls))"
  have split: "map snd (filter (\<lambda>p. fst p = i)
       (concat (map (\<lambda>(j, x). video_flat_labels j x) (enumerate n (x # cls))))) =
     map snd (filter (\<lambda>p. fst p = i) (video_flat_labels n x))
       @ map snd (filter (\<lambda>p. fst p = i) ?rest)"
    by simp
  have rest: "map snd (filter (\<lambda>p. fst p = i) ?rest) =
     (if Suc n \<le> i \<and> i < Suc n + length cls
      then map ev_frame (filter (\<lambda>e. ev_frame e < num_frames (cls ! (i - Suc n)))
                           (events (cls ! (i - Suc n))))
      else [])"
    by (rule Cons.IH)
  show ?case
  proof (cases "i = n")
    case True
    then show ?thesis
      unfolding split rest
      by (simp add: filter_video_flat_labels map_snd_video_flat_labels)
  next
    case False
    then show ?thesis
      unfolding split rest
      by (auto simp: filter_video_flat_labels nth_Cons' Suc_diff_le)
  qed
qed

lemma flat_labels_of_video:
  "map snd (filter (\<lambda>p. fst p = i) (build_flat_labels cls)) =
     (if i < length cls
      then map ev_frame (filter (\<lambda>e. ev_frame e < num_frames (cls ! i)) (events (cls ! i)))
      else [])"
  using flat_labels_of_video_from [of i 0 cls] by (simp add: build_flat_labels_def)

lemma fst_build_flat_labels_from:
  "p \<in> set (concat (map (\<lambda>(j, x). video_flat_labels j x) (enumerate n cls)))
     \<Longrightarrow> n \<le> fst p \<and> fst p < n + length cls"
  by (induction cls arbitrary: n) (fastforce simp: video_flat_labels_def)+

text \<open>
  What the constructor stores: per video and in annotation order, the frames of the
  events that pass its filter.
\<close>

lemma init_flat_labels:
  assumes "init c = Inr self"
  shows "(flat_labels self \<noteq> None \<longleftrightarrow> cfg_event_sample_rate c > 0)
     \<and> (cfg_event_sample_rate c > 0 \<longrightarrow>
          (\<exists>fl. flat_labels self = Some fl
             \<and> (\<forall>p. p \<in> set fl \<longrightarrow> fst p < length (cfg_clip_labels c))
             \<and> (\<forall>i. i < length (cfg_clip_labels c) \<longrightarrow>
                  map snd (filter (\<lambda>p. fst p = i) fl) =
                  map ev_frame
                    (filter (\<lambda>e. ev_frame e < num_frames (cfg_clip_labels c ! i))
                       (events (cfg_clip_labels c ! i))))))"
proof -
  have fst_bound: "\<And>p. p \<in> set (build_flat_labels (cfg_clip_labels c))
      \<Longrightarrow> fst p < length (cfg_clip_labels c)"
    using fst_build_flat_labels_from [of _ 0 "cfg_clip_labels c"]
    by (simp add: build_flat_labels_def)
  from assms have fl: "flat_labels self =
      (if cfg_event_sample_rate c > 0 then Some (build_flat_labels (cfg_clip_labels c))
       else None)"
    by (auto simp: init_def split: if_splits)
  show ?thesis
    using fl fst_bound by (auto simp: flat_labels_of_video)
qed

subsection \<open>The label array\<close>

lemma np_setitem_nonneg:
  assumes "0 \<le> i"
  shows "np_setitem labels i v =
     (if \<not> i < int (length labels) then Inl IndexError
      else if \<not> (- (2 ^ 63) \<le> v \<and> v < 2 ^ 63) then Inl OverflowError
      else Inr (labels[nat i := v]))"
  using assms by (simp add: np_setitem_def Let_def)

lemma write_range_Inr:
  assumes "write_range labels idxs v = Inr labels'" and "\<forall>j\<in>set idxs. 0 \<le> j"
  shows "length labels' = length labels
     \<and> (\<forall>i<length labels. labels' ! i = (if int i \<in> set idxs then v else labels ! i))"
  using assms
proof (induction idxs arbitrary: labels)
  case Nil
  then show ?case by simp
next
  case (Cons j rest)
  from Cons.prems have j0: "0 \<le> j" by simp
  from Cons.prems(1) obtain mid where
    mid: "np_setitem labels j v = Inr mid" and rest: "write_range mid rest v = Inr labels'"
    by (auto split: sum.splits)
  from mid j0 have mid_eq: "mid = labels[nat j := v]" and jlt: "j < int (length labels)"
    by (auto simp: np_setitem_nonneg split: if_splits)
  from Cons.IH [OF rest] Cons.prems(2) have
    ih: "length labels' = length mid"
        "\<forall>i<length mid. labels' ! i = (if int i \<in> set rest then v else mid ! i)"
    by auto
  show ?case
  proof (intro conjI allI impI)
    show "length labels' = length labels" using ih(1) mid_eq by simp
  next
    fix i assume i: "i < length labels"
    then have "labels' ! i = (if int i \<in> set rest then v else mid ! i)"
      using ih(2) mid_eq by simp
    moreover have "mid ! i = (if int i = j then v else labels ! i)"
      using mid_eq i j0 by (auto simp: nth_list_update)
    ultimately show "labels' ! i = (if int i \<in> set (j # rest) then v else labels ! i)"
      by auto
  qed
qed

lemma write_range_total:
  assumes "\<forall>j\<in>set idxs. 0 \<le> j \<and> j < int (length labels)" and "fits_int64 v"
  shows "\<exists>labels'. write_range labels idxs v = Inr labels'"
  using assms
proof (induction idxs arbitrary: labels)
  case Nil
  then show ?case by simp
next
  case (Cons j rest)
  then have step: "np_setitem labels j v = Inr (labels[nat j := v])"
    by (simp add: np_setitem_nonneg fits_int64_def)
  have "\<forall>k\<in>set rest. 0 \<le> k \<and> k < int (length (labels[nat j := v]))"
    using Cons.prems(1) by simp
  from Cons.IH [OF this Cons.prems(2)] step show ?case by simp
qed

lemma label_event_Inr:
  assumes "label_event self start labels ev = Inr labels'"
    and "int (length labels) = clip_len self"
  shows "length labels' = length labels
     \<and> (\<forall>i<length labels. labels' ! i =
          (if covers self start ev (int i) then the (classes_dict self (ev_label ev))
           else labels ! i))"
proof (cases "in_window self start ev")
  case False
  with assms(1) show ?thesis
    by (auto simp: label_event_def Let_def in_window_def covers_def split: if_splits)
next
  case True
  let ?li = "label_index self start ev"
  let ?idxs = "[max 0 (?li - dilate_len self) .. min (clip_len self) (?li + dilate_len self + 1) - 1]"
  from assms(1) True obtain lab where
    lab: "classes_dict self (ev_label ev) = Some lab"
    and wr: "write_range labels ?idxs lab = Inr labels'"
    by (auto simp: label_event_def Let_def in_window_def split: if_splits option.splits)
  have nonneg: "\<forall>j\<in>set ?idxs. 0 \<le> j" by auto
  from write_range_Inr [OF wr nonneg] have
    len: "length labels' = length labels"
    and pt: "\<forall>i<length labels. labels' ! i = (if int i \<in> set ?idxs then lab else labels ! i)"
    by auto
  have "\<And>i. int i \<in> set ?idxs \<longleftrightarrow> covers self start ev (int i)"
    using True by (auto simp: covers_def)
  with len pt lab show ?thesis by simp
qed

lemma label_event_total:
  assumes "frame_sample_stride self \<noteq> 0" and "int (length labels) = clip_len self"
    and "in_window self start ev \<longrightarrow>
           (\<exists>v. classes_dict self (ev_label ev) = Some v \<and> fits_int64 v)"
  shows "\<exists>labels'. label_event self start labels ev = Inr labels'"
proof (cases "in_window self start ev")
  case False
  with assms(1) show ?thesis by (auto simp: label_event_def Let_def in_window_def)
next
  case True
  with assms(3) obtain v where v: "classes_dict self (ev_label ev) = Some v" "fits_int64 v" by auto
  let ?li = "label_index self start ev"
  let ?idxs = "[max 0 (?li - dilate_len self) .. min (clip_len self) (?li + dilate_len self + 1) - 1]"
  have "\<forall>j\<in>set ?idxs. 0 \<le> j \<and> j < int (length labels)" using assms(2) by auto
  from write_range_total [OF this v(2)] obtain labels' where
    "write_range labels ?idxs v = Inr labels'" by blast
  with True v(1) assms(1) show ?thesis
    by (simp add: label_event_def Let_def in_window_def)
qed

lemma label_event_KeyError:
  assumes "frame_sample_stride self \<noteq> 0" and "in_window self start ev"
    and "classes_dict self (ev_label ev) = None"
  shows "label_event self start labels ev = Inl KeyError"
  using assms by (simp add: label_event_def Let_def in_window_def)

lemma find_append_case:
  "find P (xs @ ys) = (case find P xs of None \<Rightarrow> find P ys | Some x \<Rightarrow> Some x)"
  by (induction xs) auto

lemma label_events_Inr:
  assumes "label_events self start labels evs = Inr labels'"
    and "int (length labels) = clip_len self"
  shows "length labels' = length labels
     \<and> (\<forall>i<length labels. labels' ! i =
          (case find (\<lambda>ev. covers self start ev (int i)) (rev evs) of
             None \<Rightarrow> labels ! i
           | Some ev \<Rightarrow> the (classes_dict self (ev_label ev))))"
  using assms
proof (induction evs arbitrary: labels)
  case Nil
  then show ?case by simp
next
  case (Cons ev rest)
  from Cons.prems(1) obtain mid where
    mid: "label_event self start labels ev = Inr mid"
    and rest: "label_events self start mid rest = Inr labels'"
    by (auto split: sum.splits)
  from label_event_Inr [OF mid Cons.prems(2)] have
    mlen: "length mid = length labels"
    and mpt: "\<forall>i<length labels. mid ! i =
          (if covers self start ev (int i) then the (classes_dict self (ev_label ev))
           else labels ! i)"
    by auto
  from mlen Cons.prems(2) have "int (length mid) = clip_len self" by simp
  from Cons.IH [OF rest this] have
    len: "length labels' = length mid"
    and pt: "\<forall>i<length mid. labels' ! i =
          (case find (\<lambda>ev. covers self start ev (int i)) (rev rest) of
             None \<Rightarrow> mid ! i
           | Some ev \<Rightarrow> the (classes_dict self (ev_label ev)))"
    by auto
  show ?case
  proof (intro conjI allI impI)
    show "length labels' = length labels" using len mlen by simp
  next
    fix i assume i: "i < length labels"
    with pt mlen mpt show "labels' ! i =
          (case find (\<lambda>ev. covers self start ev (int i)) (rev (ev # rest)) of
             None \<Rightarrow> labels ! i
           | Some ev \<Rightarrow> the (classes_dict self (ev_label ev)))"
      by (simp add: find_append_case split: option.splits)
  qed
qed


lemma label_events_KeyError:
  assumes "frame_sample_stride self \<noteq> 0" and "int (length labels) = clip_len self"
    and "\<forall>k v. classes_dict self k = Some v \<longrightarrow> fits_int64 v"
    and "ev \<in> set evs" and "in_window self start ev"
    and "classes_dict self (ev_label ev) = None"
  shows "label_events self start labels evs = Inl KeyError"
  using assms(2,4)
proof (induction evs arbitrary: labels)
  case Nil
  then show ?case by simp
next
  case (Cons e rest)
  show ?case
  proof (cases "in_window self start e \<and> classes_dict self (ev_label e) = None")
    case True
    then show ?thesis using assms(1) by (simp add: label_event_KeyError)
  next
    case False
    then have known: "in_window self start e \<longrightarrow>
        (\<exists>v. classes_dict self (ev_label e) = Some v \<and> fits_int64 v)"
      using assms(3) by (cases "classes_dict self (ev_label e)") auto
    from label_event_total [OF assms(1) Cons.prems(1) known] obtain mid where
      mid: "label_event self start labels e = Inr mid" by blast
    from label_event_Inr [OF mid Cons.prems(1)] Cons.prems(1) have
      len: "int (length mid) = clip_len self" by simp
    from False assms(5,6) Cons.prems(2) have "ev \<in> set rest" by auto
    from Cons.IH [OF len this] mid show ?thesis by simp
  qed
qed

lemma wrap64_id: "- (2 ^ 63) \<le> x \<Longrightarrow> x < 2 ^ 63 \<Longrightarrow> wrap64 x = x"
  by (simp add: wrap64_def)

lemma sum_list_nonneg_pos:
  fixes xs :: "int list"
  assumes "\<forall>x\<in>set xs. 0 \<le> x"
  shows "0 < sum_list xs \<longleftrightarrow> (\<exists>x\<in>set xs. x \<noteq> 0)"
  using assms
proof (induction xs)
  case Nil
  then show ?case by simp
next
  case (Cons x xs)
  then have "0 \<le> x" and "0 \<le> sum_list xs" by (auto intro: sum_list_nonneg)
  with Cons show ?case by auto
qed

lemma contains_event_of_nonneg:
  assumes "\<forall>x\<in>set labels. 0 \<le> x" and "sum_list labels < 2 ^ 63"
  shows "contains_event_of labels = (if \<exists>x\<in>set labels. x \<noteq> 0 then 1 else 0)"
proof -
  have "0 \<le> sum_list labels" using assms(1) by (auto intro: sum_list_nonneg)
  then have "wrap64 (sum_list labels) = sum_list labels"
    using assms(2) by (intro wrap64_id) auto
  then show ?thesis using sum_list_nonneg_pos [OF assms(1)]
    by (simp add: contains_event_of_def)
qed

subsection \<open>The retry loop\<close>

lemma get_example_loads:
  "get_example self load_frames w = Inr (example, w') \<Longrightarrow> loads w' = Suc (loads w)"
  by (auto simp: get_example_def split: sum.splits prod.splits)

lemma retry_loop_frame_aux:
  assumes "retry_loop self load_frames example w = Some y"
  shows "\<forall>example' w'. y = Inr (example', w') \<longrightarrow> ex_frame example' \<noteq> None"
proof (rule retry_loop.raw_induct
    [where P = "\<lambda>_ _ _ _ y. \<forall>example' w'. y = Inr (example', w') \<longrightarrow> ex_frame example' \<noteq> None",
     OF _ assms])
  fix retry :: "dataset \<Rightarrow> ('a, 'b) frame_reader \<Rightarrow> 'a example \<Rightarrow> 'b world
                  \<Rightarrow> (py_error + ('a example \<times> 'b world)) option"
    and self load_frames example w y
  assume IH: "\<And>self load_frames example w y. retry self load_frames example w = Some y
      \<Longrightarrow> \<forall>example' w'. y = Inr (example', w') \<longrightarrow> ex_frame example' \<noteq> None"
    and eq: "(if ex_frame example = None
      then case get_example self load_frames w of Inl e \<Rightarrow> Some (Inl e)
           | Inr (example', w') \<Rightarrow> retry self load_frames example' w'
      else Some (Inr (example, w))) = Some y"
  show "\<forall>example' w'. y = Inr (example', w') \<longrightarrow> ex_frame example' \<noteq> None"
  proof (cases "ex_frame example = None")
    case False
    with eq show ?thesis by auto
  next
    case True
    show ?thesis
    proof (cases "get_example self load_frames w")
      case (Inl e)
      with True eq show ?thesis by auto
    next
      case (Inr p)
      obtain example1 w1 where p: "p = (example1, w1)" by (cases p)
      with Inr True eq have "retry self load_frames example1 w1 = Some y" by simp
      from IH [OF this] show ?thesis .
    qed
  qed
qed

lemma getitem_frame:
  assumes "getitem self load_frames unused w = Some (Inr (example, w'))"
  shows "ex_frame example \<noteq> None"
proof (cases "get_example self load_frames w")
  case (Inl e)
  with assms show ?thesis by (simp add: getitem_def)
next
  case (Inr p)
  obtain example1 w1 where p: "p = (example1, w1)" by (cases p)
  with Inr assms have "retry_loop self load_frames example1 w1 = Some (Inr (example, w'))"
    by (simp add: getitem_def)
  from retry_loop_frame_aux [OF this] show ?thesis by simp
qed

lemma getitem_retry:
  assumes "get_example self load_frames w = Inr (example, w1)" and "ex_frame example = None"
  shows "getitem self load_frames i w = getitem self load_frames j w1"
  using assms by (simp add: getitem_def retry_loop.simps [of self load_frames example w1])

lemma getitem_done:
  assumes "get_example self load_frames w = Inr (example, w1)" and "ex_frame example \<noteq> None"
  shows "getitem self load_frames i w = Some (Inr (example, w1))"
proof -
  from assms(2) have "retry_loop self load_frames example w1 = Some (Inr (example, w1))"
    by (subst retry_loop.simps) auto
  with assms(1) show ?thesis by (simp add: getitem_def)
qed

lemma getitem_after_failures:
  assumes "failed_attempts self load_frames n w = Some wn"
    and "get_example self load_frames wn = Inr (example, w')"
    and "ex_frame example \<noteq> None"
  shows "getitem self load_frames i w = Some (Inr (example, w'))
           \<and> loads w' = loads w + n + 1"
  using assms
proof (induction n arbitrary: w)
  case 0
  then show ?case by (simp add: getitem_done get_example_loads)
next
  case (Suc n)
  from Suc.prems(1) obtain example1 w1 where
    step: "get_example self load_frames w = Inr (example1, w1)"
    and none: "ex_frame example1 = None"
    and rest: "failed_attempts self load_frames n w1 = Some wn"
    by (auto split: sum.splits prod.splits if_splits)
  from Suc.IH [OF rest Suc.prems(2,3)] have
    "getitem self load_frames i w1 = Some (Inr (example, w'))" "loads w' = loads w1 + n + 1"
    by auto
  moreover have "getitem self load_frames i w = getitem self load_frames i w1"
    using step none by (rule getitem_retry)
  moreover have "loads w1 = Suc (loads w)" using step by (rule get_example_loads)
  ultimately show ?case by simp
qed

subsection \<open>The entries of the label array\<close>

lemma np_setitem_set:
  "np_setitem labels i v = Inr labels' \<Longrightarrow> set labels' \<subseteq> insert v (set labels)"
proof -
  assume "np_setitem labels i v = Inr labels'"
  then obtain j where "labels' = labels[j := v]"
    by (auto simp: np_setitem_def Let_def split: if_splits)
  then show ?thesis by (simp add: set_update_subset_insert)
qed

lemma write_range_set:
  "write_range labels idxs v = Inr labels' \<Longrightarrow> set labels' \<subseteq> insert v (set labels)"
proof (induction idxs arbitrary: labels)
  case Nil
  then show ?case by auto
next
  case (Cons j rest)
  from Cons.prems obtain mid where
    mid: "np_setitem labels j v = Inr mid" and rest: "write_range mid rest v = Inr labels'"
    by (auto split: sum.splits)
  from Cons.IH [OF rest] np_setitem_set [OF mid] show ?case by auto
qed

lemma label_event_set:
  assumes "label_event self start labels ev = Inr labels'" and "x \<in> set labels'"
  shows "x \<in> set labels \<or> (\<exists>k. classes_dict self k = Some x)"
proof (cases "in_window self start ev")
  case False
  with assms show ?thesis
    by (auto simp: label_event_def Let_def in_window_def split: if_splits)
next
  case True
  with assms(1) obtain lab idxs where
    lab: "classes_dict self (ev_label ev) = Some lab"
    and wr: "write_range labels idxs lab = Inr labels'"
    by (auto simp: label_event_def Let_def in_window_def split: if_splits option.splits)
  from write_range_set [OF wr] assms(2) have "x = lab \<or> x \<in> set labels" by auto
  with lab show ?thesis by auto
qed

lemma label_events_set:
  assumes "label_events self start labels evs = Inr labels'" and "x \<in> set labels'"
  shows "x \<in> set labels \<or> (\<exists>k. classes_dict self k = Some x)"
  using assms
proof (induction evs arbitrary: labels)
  case Nil
  then show ?case by simp
next
  case (Cons ev rest)
  from Cons.prems(1) obtain mid where
    mid: "label_event self start labels ev = Inr mid"
    and rest: "label_events self start mid rest = Inr labels'"
    by (auto split: sum.splits)
  from Cons.IH [OF rest Cons.prems(2)] label_event_set [OF mid] show ?case by blast
qed

lemma make_labels_entries:
  assumes "make_labels self clip_label start = Inr labels" and "x \<in> set labels"
  shows "x = 0 \<or> (\<exists>k. classes_dict self k = Some x)"
proof -
  from assms(1) have "label_events self start (replicate (nat (clip_len self)) 0)
      (events clip_label) = Inr labels"
    by (auto simp: make_labels_def np_zeros_def split: if_splits)
  from label_events_set [OF this assms(2)] show ?thesis by auto
qed

lemma make_labels_length:
  assumes "make_labels self clip_label start = Inr labels"
  shows "int (length labels) = clip_len self"
proof -
  from assms have nonneg: "0 \<le> clip_len self"
    and run: "label_events self start (replicate (nat (clip_len self)) 0)
      (events clip_label) = Inr labels"
    by (auto simp: make_labels_def np_zeros_def split: if_splits)
  from nonneg have "int (length (replicate (nat (clip_len self)) (0::int))) = clip_len self"
    by simp
  from label_events_Inr [OF run this] nonneg show ?thesis by simp
qed

lemma sum_list_le_length_times:
  fixes xs :: "int list"
  assumes "\<forall>x\<in>set xs. x \<le> m"
  shows "sum_list xs \<le> int (length xs) * m"
  using assms by (induction xs) (auto simp: algebra_simps)

lemma get_example_labels:
  assumes "get_example self load_frames w = Inr (example, w')"
  shows "\<exists>clip_label start. make_labels self clip_label start = Inr (ex_label example)
           \<and> contains_event example = contains_event_of (ex_label example)"
proof -
  from assms obtain clip_label start g' where
    "get_sample self (rand w) = Inr ((clip_label, start), g')"
    by (auto simp: get_example_def split: sum.splits prod.splits)
  with assms have "make_labels self clip_label start = Inr (ex_label example)
      \<and> contains_event example = contains_event_of (ex_label example)"
    by (auto simp: get_example_def split: sum.splits prod.splits)
  then show ?thesis by blast
qed

subsection \<open>Evaluation of the concrete inputs\<close>

lemma replicate_numeral_unfold:
  "replicate (numeral k) x = x # replicate (pred_numeral k) x"
  by (simp add: numeral_eq_Suc)

lemmas eval_lists = replicate_numeral_unfold upto_rec1

lemmas eval_rng = tape_of_def next_raw_def random_random_def randint_def choices_def
  choices_weighted_def uniform_sample_weight_def

lemmas eval_sampler = get_sample_def sample_clip_def sample_event_def event_start_frame_def
  lower_bound_def upper_bound_def

lemmas eval_labels = make_labels_def np_zeros_def label_event_def label_index_def
  np_setitem_def contains_event_of_def wrap64_def

section \<open>Event-centred sampling\<close>

text \<open>
  Claim C1.  Under a valid configuration (\<open>clip_len > 0\<close>, \<open>frame_sample_stride > 0\<close>,
  \<open>n_pad_frames \<ge> 0\<close>) the start frame that \<open>sample_event\<close> computes for an event
  whose frame lies in \<open>[0, num_frames)\<close> satisfies
  \<open>start \<le> event_frame < start + clip_len * stride\<close>, whatever the random draw; and
  every sample that \<open>sample_event\<close> returns is a video of the event index together with
  a start frame that has this property for one of its indexed events.
\<close>

theorem sample_event_frame_inside_window:
  assumes "clip_len self > 0" and "frame_sample_stride self > 0" and "n_pad_frames self \<ge> 0"
  shows "(0 \<le> f \<and> f < video_len \<longrightarrow>
            (\<exists>start g'. event_start_frame self video_len f g = Inr (start, g')
               \<and> start \<le> f \<and> f < start + clip_len self * frame_sample_stride self))
         \<and> (\<forall>c s g2. sample_event self g = Inr ((c, s), g2) \<longrightarrow>
              (\<exists>fl vi fr. flat_labels self = Some fl \<and> (vi, fr) \<in> set fl
                 \<and> vi < length (clip_labels self) \<and> c = clip_labels self ! vi
                 \<and> s \<le> fr \<and> fr < s + clip_len self * frame_sample_stride self))"
proof (intro conjI impI allI)
  assume f: "0 \<le> f \<and> f < video_len"
  have low: "f - clip_len self * frame_sample_stride self + 1 \<le> lower_bound self f"
    by (simp add: lower_bound_def)
  show "\<exists>start g'. event_start_frame self video_len f g = Inr (start, g')
          \<and> start \<le> f \<and> f < start + clip_len self * frame_sample_stride self"
  proof (cases "upper_bound self video_len f > lower_bound self f")
    case True
    then obtain r g' where
      r: "randint (lower_bound self f) (upper_bound self video_len f) g = Inr (r, g')"
        "lower_bound self f \<le> r" "r \<le> upper_bound self video_len f"
      using randint_in_range [of "lower_bound self f" "upper_bound self video_len f" g]
      by auto
    have "upper_bound self video_len f \<le> f" by (simp add: upper_bound_def)
    with low True r show ?thesis by (simp add: event_start_frame_def)
  next
    case False
    from f have "0 \<le> f" by simp
    from lower_bound_le_frame [OF assms this] low False show ?thesis
      by (simp add: event_start_frame_def)
  qed
next
  fix c s g2
  assume "sample_event self g = Inr ((c, s), g2)"
  from sample_event_returns [OF this] obtain fl vi fr where
    ret: "flat_labels self = Some fl" "(vi, fr) \<in> set fl" "vi < length (clip_labels self)"
      "c = clip_labels self ! vi" "s \<le> fr" "fr < s + clip_len self"
    by blast
  have "clip_len self * 1 \<le> clip_len self * frame_sample_stride self"
    using assms(1,2) by (intro mult_left_mono) auto
  with ret(6) have "fr < s + clip_len self * frame_sample_stride self" by simp
  with ret show "\<exists>fl vi fr. flat_labels self = Some fl \<and> (vi, fr) \<in> set fl
      \<and> vi < length (clip_labels self) \<and> c = clip_labels self ! vi
      \<and> s \<le> fr \<and> fr < s + clip_len self * frame_sample_stride self"
    by blast
qed

text \<open>
  The theorem at the stride-2 dataset: the draw 7 gives the start frame 50 for the
  event at frame 50, and \<open>sample_event\<close> returns it.
\<close>

theorem sample_event_frame_inside_window_witness:
  "clip_len stride_dataset > 0 \<and> frame_sample_stride stride_dataset > 0
   \<and> n_pad_frames stride_dataset \<ge> 0 \<and> (0::int) \<le> 50 \<and> (50::int) < 100
   \<and> sample_event stride_dataset (tape_of [0, 7])
       = Inr ((clip_labels stride_dataset ! 0, 50), (tape_of [0, 7]) \<lparr> pos := 2 \<rparr>)
   \<and> (\<exists>start g'. event_start_frame stride_dataset 100 50 (tape_of [0, 7]) = Inr (start, g')
         \<and> start \<le> 50
         \<and> 50 < start + clip_len stride_dataset * frame_sample_stride stride_dataset)
   \<and> (\<exists>fl vi fr. flat_labels stride_dataset = Some fl \<and> (vi, fr) \<in> set fl
         \<and> vi < length (clip_labels stride_dataset)
         \<and> clip_labels stride_dataset ! 0 = clip_labels stride_dataset ! vi
         \<and> 50 \<le> fr
         \<and> fr < 50 + clip_len stride_dataset * frame_sample_stride stride_dataset)"
proof -
  have valid: "clip_len stride_dataset > 0" "frame_sample_stride stride_dataset > 0"
    "n_pad_frames stride_dataset \<ge> 0"
    by (simp_all add: stride_dataset_def)
  have run: "sample_event stride_dataset (tape_of [0, 7])
       = Inr ((clip_labels stride_dataset ! 0, 50), (tape_of [0, 7]) \<lparr> pos := 2 \<rparr>)"
    by (simp add: stride_dataset_def eval_rng eval_sampler)
  from sample_event_frame_inside_window [OF valid, of 50 100 "tape_of [0, 7]"] run valid
  show ?thesis by simp
qed

text \<open>
  Claim C5.  The claim says that \<open>sample_event\<close> returns normally for every valid
  configuration and that its assertions hold for every stride.  The second assertion
  of the source compares \<open>start_frame + clip_len\<close>, without the stride, with the event
  frame: with stride 2 and clip length 4 the draw 0 gives the start frame 43 for the
  event at frame 50, inside the window of 8 frames, and the assertion fails.
\<close>

theorem sample_event_assertion_fails:
  "init stride_config = Inr stride_dataset
   \<and> event_start_frame stride_dataset 100 50 ((tape_of [0, 0]) \<lparr> pos := 1 \<rparr>)
       = Inr (43, (tape_of [0, 0]) \<lparr> pos := 2 \<rparr>)
   \<and> sample_event stride_dataset (tape_of [0, 0]) = Inl AssertionError"
  by (simp add: init_def stride_config_def build_flat_labels_def video_flat_labels_def
      enumerate_eq_zip stride_dataset_def eval_rng eval_sampler)

text \<open>
  Claim C7.  \<open>get_sample\<close> samples around an event exactly when the rate is positive
  and the draw of \<open>random.random()\<close> is strictly greater than the rate, and samples a
  clip uniformly otherwise; the draw is made only when the rate is positive.  The
  direction of the comparison is the source's: raising the rate can only remove
  event-centred draws, and a rate of 1 or more leaves none.
\<close>

theorem get_sample_strategy:
  "get_sample self g =
     (if event_sample_rate self > 0 \<and> fst (random_random g) > event_sample_rate self
      then sample_event self (snd (random_random g))
      else sample_clip self (if event_sample_rate self > 0 then snd (random_random g) else g))
   \<and> (event_centered self g \<longleftrightarrow>
        event_sample_rate self > 0 \<and> fst (random_random g) > event_sample_rate self)
   \<and> (0 < event_sample_rate self \<and> event_sample_rate self \<le> r
        \<and> event_centered (self \<lparr> event_sample_rate := r \<rparr>) g \<longrightarrow> event_centered self g)
   \<and> (1 \<le> event_sample_rate self \<longrightarrow> \<not> event_centered self g)"
proof -
  have "fst (random_random g) < 1"
    by (simp add: random_random_def split: prod.splits)
  then show ?thesis
    by (auto simp: get_sample_def event_centered_def split: prod.splits)
qed

theorem get_sample_strategy_witness:
  "0 < event_sample_rate (stride_dataset \<lparr> event_sample_rate := 1 / 4 \<rparr>)
   \<and> event_sample_rate (stride_dataset \<lparr> event_sample_rate := 1 / 4 \<rparr>) \<le> 3 / 4
   \<and> event_centered (stride_dataset \<lparr> event_sample_rate := 3 / 4 \<rparr>) (tape_of [2 ^ 53 - 1])
   \<and> event_centered (stride_dataset \<lparr> event_sample_rate := 1 / 4 \<rparr>) (tape_of [2 ^ 53 - 1])
   \<and> (1 \<le> event_sample_rate (stride_dataset \<lparr> event_sample_rate := 1 \<rparr>)
        \<and> \<not> event_centered (stride_dataset \<lparr> event_sample_rate := 1 \<rparr>) (tape_of [2 ^ 53 - 1]))"
  using get_sample_strategy [of "stride_dataset \<lparr> event_sample_rate := 1 / 4 \<rparr>"
      "tape_of [2 ^ 53 - 1]" "3 / 4"]
    get_sample_strategy [of "stride_dataset \<lparr> event_sample_rate := 1 \<rparr>"
      "tape_of [2 ^ 53 - 1]" 1]
  by (simp add: event_centered_def stride_dataset_def eval_rng)

section \<open>Construction\<close>

text \<open>
  Claim C4 (amended).  Construction fails exactly when \<open>clip_len \<le> 0\<close>, or
  \<open>frame_sample_stride \<le> 0\<close>, or \<open>dataset_len \<le> 0\<close>, or \<open>n_pad_frames < 0\<close>, and it
  then fails with the \<open>AssertionError\<close> of a Python \<open>assert\<close>; for all other
  parameter values it succeeds and stores the four parameters unchanged.
\<close>

theorem init_fails_iff_invalid:
  "(init c = Inl AssertionError \<longleftrightarrow>
      (cfg_clip_len c \<le> 0 \<or> cfg_frame_sample_stride c \<le> 0
       \<or> cfg_dataset_len c \<le> 0 \<or> cfg_n_pad_frames c < 0))
   \<and> ((\<exists>self. init c = Inr self) \<longleftrightarrow>
      (cfg_clip_len c > 0 \<and> cfg_frame_sample_stride c > 0
       \<and> cfg_dataset_len c > 0 \<and> cfg_n_pad_frames c \<ge> 0))
   \<and> (\<forall>e. init c = Inl e \<longrightarrow> e = AssertionError)
   \<and> (\<forall>self. init c = Inr self \<longrightarrow>
         clip_len self = cfg_clip_len c
         \<and> frame_sample_stride self = cfg_frame_sample_stride c
         \<and> dataset_len self = cfg_dataset_len c
         \<and> n_pad_frames self = cfg_n_pad_frames c)"
  by (auto simp: init_def)

theorem init_fails_iff_invalid_witness:
  "init zero_clip_len_config = Inl AssertionError
   \<and> init stride_config = Inr stride_dataset
   \<and> clip_len stride_dataset = cfg_clip_len stride_config
   \<and> frame_sample_stride stride_dataset = cfg_frame_sample_stride stride_config
   \<and> dataset_len stride_dataset = cfg_dataset_len stride_config
   \<and> n_pad_frames stride_dataset = cfg_n_pad_frames stride_config"
proof -
  have ok: "init stride_config = Inr stride_dataset"
    by (simp add: init_def stride_config_def stride_dataset_def build_flat_labels_def
        video_flat_labels_def enumerate_eq_zip)
  have bad: "init zero_clip_len_config = Inl AssertionError"
    using init_fails_iff_invalid [of zero_clip_len_config]
    by (simp add: zero_clip_len_config_def)
  from init_fails_iff_invalid [of stride_config] ok bad show ?thesis by simp
qed

text \<open>
  The claim as stated names a \<open>ConfigurationError\<close>: with \<open>clip_len = 0\<close> the
  constructor raises, but what it raises is an \<open>AssertionError\<close>.
\<close>

theorem init_raises_AssertionError:
  "cfg_clip_len zero_clip_len_config \<le> 0
   \<and> init zero_clip_len_config = Inl AssertionError
   \<and> init zero_clip_len_config \<noteq> Inl ConfigurationError"
  by (simp add: zero_clip_len_config_def stride_config_def init_def)

text \<open>
  Claim C6.  The claim lets the event index hold one pair for precisely the events
  whose frame lies within \<open>[0, num_frames)\<close>.  The constructor builds the index
  when \<open>event_sample_rate > 0\<close>, but its filter compares the frame with \<open>num_frames\<close>
  only: the event at frame \<open>-1\<close> of a video of 10 frames is indexed, and
  \<open>sample_event\<close> then fails its own assertion \<open>start_frame \<le> frame_idx\<close> for every
  state of the random generator.
\<close>

theorem flat_labels_keeps_negative_frame:
  "init negative_frame_config = Inr negative_frame_dataset
   \<and> flat_labels negative_frame_dataset = Some [(0, - 1)]
   \<and> spec_flat_labels (cfg_clip_labels negative_frame_config) = []
   \<and> sample_event negative_frame_dataset g = Inl AssertionError"
  by (simp add: negative_frame_config_def negative_frame_dataset_def init_def
      build_flat_labels_def video_flat_labels_def spec_flat_labels_def enumerate_eq_zip
      sample_event_def choices_def next_raw_def event_start_frame_def lower_bound_def
      upper_bound_def randint_def split: prod.splits)

section \<open>Labels\<close>



text \<open>
  Claim C8 (amended).  When the chosen video has an event whose label is not a key of
  the class map and whose label index passes the guard
  \<open>-dilate_len \<le> label_index < clip_len + dilate_len\<close>, and the class indices fit the
  array, label construction fails with \<open>KeyError\<close>, a \<open>LookupError\<close>; neither
  \<open>get_example\<close> nor \<open>__getitem__\<close> catches it or retries.
\<close>

theorem missing_label_in_window_raises_KeyError:
  assumes "frame_sample_stride self \<noteq> 0" and "0 \<le> clip_len self"
    and "\<forall>k v. classes_dict self k = Some v \<longrightarrow> fits_int64 v"
    and "get_sample self (rand w) = Inr ((clip_label, start), g')"
    and "ev \<in> set (events clip_label)" and "in_window self start ev"
    and "classes_dict self (ev_label ev) = None"
  shows "make_labels self clip_label start = Inl KeyError
     \<and> get_example self load_frames w = Inl KeyError
     \<and> getitem self load_frames unused w = Some (Inl KeyError)
     \<and> is_LookupError KeyError"
proof -
  have len: "int (length (replicate (nat (clip_len self)) (0::int))) = clip_len self"
    using assms(2) by simp
  from label_events_KeyError [OF assms(1) len assms(3,5,6,7)] assms(2)
  have labels: "make_labels self clip_label start = Inl KeyError"
    by (simp add: make_labels_def np_zeros_def)
  with assms(4) have ex: "get_example self load_frames w = Inl KeyError"
    by (simp add: get_example_def)
  then have "getitem self load_frames unused w = Some (Inl KeyError)"
    by (simp add: getitem_def)
  with labels ex show ?thesis by simp
qed

text \<open>
  The theorem at the dataset with the unknown label \<open>offside\<close> at frame 90: the draw 88
  gives the start frame 88 and the label index 1.
\<close>

theorem missing_label_in_window_raises_KeyError_witness:
  "frame_sample_stride unknown_label_dataset \<noteq> 0 \<and> 0 \<le> clip_len unknown_label_dataset
   \<and> fits_int64 1
   \<and> get_sample unknown_label_dataset (tape_of [0, 88])
        = Inr ((clip_labels unknown_label_dataset ! 0, 88), (tape_of [0, 88]) \<lparr> pos := 2 \<rparr>)
   \<and> \<lparr> ev_frame = 90, ev_label = ''offside'' \<rparr>
        \<in> set (events (clip_labels unknown_label_dataset ! 0))
   \<and> in_window unknown_label_dataset 88 \<lparr> ev_frame = 90, ev_label = ''offside'' \<rparr>
   \<and> classes_dict unknown_label_dataset ''offside'' = None
   \<and> getitem unknown_label_dataset steady_reader 0
        \<lparr> rand = tape_of [0, 88], reader = 0, loads = 0 \<rparr> = Some (Inl KeyError)"
proof -
  let ?ev = "\<lparr> ev_frame = 90, ev_label = ''offside'' \<rparr>"
  let ?w = "\<lparr> rand = tape_of [0, 88], reader = 0::nat, loads = 0 \<rparr>"
  have h1: "frame_sample_stride unknown_label_dataset \<noteq> 0"
    and h2: "0 \<le> clip_len unknown_label_dataset"
    by (simp_all add: unknown_label_dataset_def)
  have h3: "\<forall>k v. classes_dict unknown_label_dataset k = Some v \<longrightarrow> fits_int64 v"
    by (simp add: unknown_label_dataset_def fits_int64_def)
  have h4: "get_sample unknown_label_dataset (rand ?w)
        = Inr ((clip_labels unknown_label_dataset ! 0, 88), (tape_of [0, 88]) \<lparr> pos := 2 \<rparr>)"
    by (simp add: unknown_label_dataset_def eval_rng eval_sampler)
  have h5: "?ev \<in> set (events (clip_labels unknown_label_dataset ! 0))"
    by (simp add: unknown_label_dataset_def)
  have h6: "in_window unknown_label_dataset 88 ?ev"
    by (simp add: unknown_label_dataset_def in_window_def label_index_def)
  have h7: "classes_dict unknown_label_dataset (ev_label ?ev) = None"
    by (simp add: unknown_label_dataset_def)
  from missing_label_in_window_raises_KeyError
    [OF h1 h2 h3 h4 h5 h6 h7, of steady_reader 0] h1 h2 h4 h5 h6 h7
  show ?thesis by (simp add: fits_int64_def)
qed

text \<open>
  The claim as stated lets every event with an unknown label fail the construction.
  With the start frame 0 the event at frame 90 has the label index 45, outside the
  guard; its label is never looked up and \<open>__getitem__\<close> returns an example.
\<close>

theorem missing_label_outside_window_is_ignored:
  "classes_dict unknown_label_dataset ''offside'' = None
   \<and> getitem unknown_label_dataset steady_reader 0
        \<lparr> rand = tape_of [0, 0], reader = 0, loads = 0 \<rparr>
      = Some (Inr (\<lparr> ex_frame = Some ''match'', ex_label = [0, 0, 0, 0], contains_event = 0 \<rparr>,
                   \<lparr> rand = (tape_of [0, 0]) \<lparr> pos := 2 \<rparr>, reader = 1, loads = 1 \<rparr>))"
proof -
  have "get_example unknown_label_dataset steady_reader
          \<lparr> rand = tape_of [0, 0], reader = 0, loads = 0 \<rparr>
      = Inr (\<lparr> ex_frame = Some ''match'', ex_label = [0, 0, 0, 0], contains_event = 0 \<rparr>,
             \<lparr> rand = (tape_of [0, 0]) \<lparr> pos := 2 \<rparr>, reader = 1, loads = 1 \<rparr>)"
    by (simp add: get_example_def unknown_label_dataset_def steady_reader_def
        eval_rng eval_sampler eval_labels eval_lists)
  then show ?thesis
    by (simp add: getitem_done unknown_label_dataset_def)
qed

text \<open>
  Claim C9.  For every example that \<open>get_example\<close> produces from a class map whose
  indices lie in \<open>[0, num_classes)\<close>, the label array being short enough for its
  \<open>int64\<close> sum (\<open>clip_len * num_classes \<le> 2^63\<close>), every entry of the label array is
  a non-negative class index, and \<open>contains_event\<close> is 1 if and only if some entry
  differs from the background class 0, and is 0 otherwise.
\<close>

theorem contains_event_iff_nonzero_label:
  assumes "get_example self load_frames w = Inr (example, w')"
    and "\<forall>k v. classes_dict self k = Some v \<longrightarrow> 0 \<le> v \<and> v < num_classes"
    and "clip_len self * num_classes \<le> 2 ^ 63"
  shows "(\<forall>x\<in>set (ex_label example). 0 \<le> x)
     \<and> (contains_event example = 1 \<longleftrightarrow> (\<exists>x\<in>set (ex_label example). x \<noteq> 0))
     \<and> (contains_event example = 0 \<longleftrightarrow> \<not> (\<exists>x\<in>set (ex_label example). x \<noteq> 0))"
proof -
  let ?labels = "ex_label example"
  from get_example_labels [OF assms(1)] obtain clip_label start where
    made: "make_labels self clip_label start = Inr ?labels"
    and flag: "contains_event example = contains_event_of ?labels"
    by blast
  have entry: "0 \<le> x \<and> (x = 0 \<or> x < num_classes)" if "x \<in> set ?labels" for x
    using make_labels_entries [OF made that] assms(2) by auto
  then have nonneg: "\<forall>x\<in>set ?labels. 0 \<le> x" by simp
  have len: "int (length ?labels) = clip_len self" by (rule make_labels_length [OF made])
  have small: "sum_list ?labels < 2 ^ 63"
  proof (cases "\<exists>x\<in>set ?labels. x \<noteq> 0")
    case False
    then have "sum_list ?labels = 0" using sum_list_nonneg_pos [OF nonneg] nonneg
      by (metis less_le sum_list_nonneg)
    then show ?thesis by simp
  next
    case True
    then obtain y where y: "y \<in> set ?labels" "y \<noteq> 0" by blast
    with entry have "0 < y" "y < num_classes" by fastforce+
    then have n1: "1 \<le> num_classes" by simp
    from y(1) have "0 < int (length ?labels)" by (cases ?labels) auto
    with len have c1: "1 \<le> clip_len self" by linarith
    have "\<forall>x\<in>set ?labels. x \<le> num_classes - 1" using entry n1 by fastforce
    from sum_list_le_length_times [OF this] len
    have "sum_list ?labels \<le> clip_len self * (num_classes - 1)" by simp
    also have "\<dots> = clip_len self * num_classes - clip_len self" by (simp add: algebra_simps)
    also have "\<dots> < 2 ^ 63" using assms(3) c1 by simp
    finally show ?thesis .
  qed
  from contains_event_of_nonneg [OF nonneg small] flag nonneg show ?thesis by simp
qed

theorem contains_event_iff_nonzero_label_witness:
  "get_example demo_dataset steady_reader \<lparr> rand = tape_of [0, 46], reader = 0, loads = 0 \<rparr>
     = Inr (\<lparr> ex_frame = Some ''match'', ex_label = [0, 1, 2, 2], contains_event = 1 \<rparr>,
            \<lparr> rand = (tape_of [0, 46]) \<lparr> pos := 2 \<rparr>, reader = 1, loads = 1 \<rparr>)
   \<and> classes_dict demo_dataset ''goal'' = Some 1 \<and> classes_dict demo_dataset ''foul'' = Some 2
   \<and> clip_len demo_dataset * 3 \<le> 2 ^ 63
   \<and> list_all (\<lambda>x. 0 \<le> x) [0, 1, 2, 2 :: int]
   \<and> (\<exists>x\<in>set [0, 1, 2, 2 :: int]. x \<noteq> 0)"
proof -
  let ?example = "\<lparr> ex_frame = Some ''match'', ex_label = [0, 1, 2, 2], contains_event = 1 \<rparr>"
  have run: "get_example demo_dataset steady_reader
        \<lparr> rand = tape_of [0, 46], reader = 0, loads = 0 \<rparr>
     = Inr (?example, \<lparr> rand = (tape_of [0, 46]) \<lparr> pos := 2 \<rparr>, reader = 1, loads = 1 \<rparr>)"
    by (simp add: get_example_def demo_dataset_def steady_reader_def
        eval_rng eval_sampler eval_labels eval_lists)
  have dense: "\<forall>k v. classes_dict demo_dataset k = Some v \<longrightarrow> 0 \<le> v \<and> v < 3"
    by (simp add: demo_dataset_def)
  have bound: "clip_len demo_dataset * 3 \<le> 2 ^ 63"
    by (simp add: demo_dataset_def)
  from contains_event_iff_nonzero_label [OF run dense bound] run bound show ?thesis
    by (simp add: demo_dataset_def)
qed

section \<open>Fetching an example\<close>

text \<open>
  Claim C2.  \<open>__getitem__\<close> never returns an example without frames.  When a run of
  \<open>get_example\<close> returns an example without frames, \<open>__getitem__\<close> continues as a new
  call of \<open>__getitem__\<close> would from the state that run left, in which the random
  generator has moved on.  For every number \<open>n\<close> of such runs in a row followed by a
  run whose example has frames, \<open>__getitem__\<close> returns that example and the frame
  reader has been called \<open>n + 1\<close> times.
\<close>

theorem getitem_retries_until_frames:
  "(\<forall>example w'. getitem self load_frames unused w = Some (Inr (example, w'))
       \<longrightarrow> ex_frame example \<noteq> None)
   \<and> (\<forall>example w1. get_example self load_frames w = Inr (example, w1)
         \<and> ex_frame example = None
       \<longrightarrow> getitem self load_frames unused w = getitem self load_frames unused w1
           \<and> pos (rand w) < pos (rand w1))
   \<and> (\<forall>n wn example w'. failed_attempts self load_frames n w = Some wn
         \<and> get_example self load_frames wn = Inr (example, w')
         \<and> ex_frame example \<noteq> None
       \<longrightarrow> getitem self load_frames unused w = Some (Inr (example, w'))
           \<and> loads w' = loads w + n + 1)"
proof (intro conjI allI impI)
  fix example w'
  assume "getitem self load_frames unused w = Some (Inr (example, w'))"
  then show "ex_frame example \<noteq> None" by (rule getitem_frame)
next
  fix example w1
  assume a: "get_example self load_frames w = Inr (example, w1) \<and> ex_frame example = None"
  then show "getitem self load_frames unused w = getitem self load_frames unused w1"
    by (intro getitem_retry) auto
  from a show "pos (rand w) < pos (rand w1)" by (intro get_example_fresh) auto
next
  fix n wn example w'
  assume a: "failed_attempts self load_frames n w = Some wn
         \<and> get_example self load_frames wn = Inr (example, w')
         \<and> ex_frame example \<noteq> None"
  then have "getitem self load_frames unused w = Some (Inr (example, w'))
           \<and> loads w' = loads w + n + 1"
    by (intro getitem_after_failures) auto
  then show "getitem self load_frames unused w = Some (Inr (example, w'))"
    and "loads w' = loads w + n + 1" by auto
qed

text \<open>
  The theorem at a reader that fails on its first two calls: \<open>__getitem__\<close> returns
  the example of the third run of \<open>get_example\<close>, after three calls of the reader.
\<close>

theorem getitem_retries_until_frames_witness:
  "failed_attempts demo_dataset flaky_reader 2
       \<lparr> rand = tape_of [0, 10, 0, 20, 0, 46], reader = 0, loads = 0 \<rparr>
     = Some \<lparr> rand = (tape_of [0, 10, 0, 20, 0, 46]) \<lparr> pos := 4 \<rparr>, reader = 2, loads = 2 \<rparr>
   \<and> get_example demo_dataset flaky_reader
       \<lparr> rand = (tape_of [0, 10, 0, 20, 0, 46]) \<lparr> pos := 4 \<rparr>, reader = 2, loads = 2 \<rparr>
     = Inr (\<lparr> ex_frame = Some ''match'', ex_label = [0, 1, 2, 2], contains_event = 1 \<rparr>,
            \<lparr> rand = (tape_of [0, 10, 0, 20, 0, 46]) \<lparr> pos := 6 \<rparr>, reader = 3, loads = 3 \<rparr>)
   \<and> getitem demo_dataset flaky_reader 7
       \<lparr> rand = tape_of [0, 10, 0, 20, 0, 46], reader = 0, loads = 0 \<rparr>
     = Some (Inr (\<lparr> ex_frame = Some ''match'', ex_label = [0, 1, 2, 2], contains_event = 1 \<rparr>,
            \<lparr> rand = (tape_of [0, 10, 0, 20, 0, 46]) \<lparr> pos := 6 \<rparr>, reader = 3, loads = 3 \<rparr>))"
proof -
  let ?t = "tape_of [0, 10, 0, 20, 0, 46]"
  let ?w0 = "\<lparr> rand = ?t, reader = 0::nat, loads = 0 \<rparr>"
  let ?w1 = "\<lparr> rand = ?t \<lparr> pos := 2 \<rparr>, reader = 1::nat, loads = 1 \<rparr>"
  let ?w2 = "\<lparr> rand = ?t \<lparr> pos := 4 \<rparr>, reader = 2::nat, loads = 2 \<rparr>"
  let ?w3 = "\<lparr> rand = ?t \<lparr> pos := 6 \<rparr>, reader = 3::nat, loads = 3 \<rparr>"
  let ?example = "\<lparr> ex_frame = Some ''match'', ex_label = [0, 1, 2, 2], contains_event = 1 \<rparr>"
  have run1: "get_example demo_dataset flaky_reader ?w0
      = Inr (\<lparr> ex_frame = None, ex_label = [0, 0, 0, 0], contains_event = 0 \<rparr>, ?w1)"
    by (simp add: get_example_def demo_dataset_def flaky_reader_def
        eval_rng eval_sampler eval_labels eval_lists)
  have run2: "get_example demo_dataset flaky_reader ?w1
      = Inr (\<lparr> ex_frame = None, ex_label = [0, 0, 0, 0], contains_event = 0 \<rparr>, ?w2)"
    by (simp add: get_example_def demo_dataset_def flaky_reader_def
        eval_rng eval_sampler eval_labels eval_lists)
  have run3: "get_example demo_dataset flaky_reader ?w2 = Inr (?example, ?w3)"
    by (simp add: get_example_def demo_dataset_def flaky_reader_def
        eval_rng eval_sampler eval_labels eval_lists)
  have fails: "failed_attempts demo_dataset flaky_reader 2 ?w0 = Some ?w2"
    using run1 run2 by (simp add: numeral_2_eq_2)
  have frames: "ex_frame ?example \<noteq> None" by simp
  from getitem_retries_until_frames [of demo_dataset flaky_reader 7 ?w0] fails run3 frames
  have "getitem demo_dataset flaky_reader 7 ?w0 = Some (Inr (?example, ?w3))"
    by blast
  with fails run3 show ?thesis by simp
qed

text \<open>
  Claim C10.  The index passed to \<open>__getitem__\<close> is ignored: from the same state of
  the random generator and of the frame reader, any two indices give the same outcome.
\<close>

theorem getitem_ignores_index:
  "getitem self load_frames i w = getitem self load_frames j w"
  by (simp add: getitem_def)

end
